theory Spec2Isabelle
  imports Main "HOL-Library.Word" "HOL-Library.Signed_Division"
begin

unbundle bit_operations_syntax

section \<open>Integer math verbs (src/core/t-integer.c)\<close>

text \<open>
  \<^verbatim>\<open>REBI64\<close> is a signed 64-bit machine integer. It is a \<open>64 word\<close> here and
  is read through \<open>sint\<close>.
\<close>

type_synonym REBI64 = "64 word"

definition INT64_MIN :: REBI64 where
  "INT64_MIN = word_of_int (- (2 ^ 63))"

definition fits_i64 :: "int \<Rightarrow> bool" where
  "fits_i64 k \<longleftrightarrow> - (2 ^ 63) \<le> k \<and> k < 2 ^ 63"

text \<open>
  Modelled from the spec: the macros \<^verbatim>\<open>REB_I64_ADD_OF\<close>, \<^verbatim>\<open>REB_I64_SUB_OF\<close> and
  \<^verbatim>\<open>REB_I64_MUL_OF\<close> live in sys-int-funcs.h, which is not part of the sources at hand.
  The spec calls them "the operation in 64-bit with overflow detection": they report an
  overflow (here \<open>None\<close>) when the exact result does not fit, and store it otherwise.
\<close>

definition REB_I64_ADD_OF :: "REBI64 \<Rightarrow> REBI64 \<Rightarrow> REBI64 option" where
  "REB_I64_ADD_OF x y =
     (if fits_i64 (sint x + sint y) then Some (word_of_int (sint x + sint y)) else None)"

definition REB_I64_SUB_OF :: "REBI64 \<Rightarrow> REBI64 \<Rightarrow> REBI64 option" where
  "REB_I64_SUB_OF x y =
     (if fits_i64 (sint x - sint y) then Some (word_of_int (sint x - sint y)) else None)"

definition REB_I64_MUL_OF :: "REBI64 \<Rightarrow> REBI64 \<Rightarrow> REBI64 option" where
  "REB_I64_MUL_OF x y =
     (if fits_i64 (sint x * sint y) then Some (word_of_int (sint x * sint y)) else None)"

text \<open>
  The C operators \<^verbatim>\<open>/\<close> and \<^verbatim>\<open>%\<close> on \<^verbatim>\<open>int64_t\<close> truncate towards zero. They
  have no defined result for a zero divisor and for \<^verbatim>\<open>INT64_MIN\<close> by \<^verbatim>\<open>-1\<close> (the
  quotient overflows, and the remainder traps with it); that is \<open>None\<close> here.
\<close>

definition i64_div :: "REBI64 \<Rightarrow> REBI64 \<Rightarrow> REBI64 option" where
  "i64_div x y =
     (if y = 0 \<or> (x = INT64_MIN \<and> y = - 1) then None
      else Some (word_of_int (sint x sdiv sint y)))"

definition i64_rem :: "REBI64 \<Rightarrow> REBI64 \<Rightarrow> REBI64 option" where
  "i64_rem x y =
     (if y = 0 \<or> (x = INT64_MIN \<and> y = - 1) then None
      else Some (word_of_int (sint x smod sint y)))"

datatype SymId =
    SYM_ADD | SYM_SUBTRACT | SYM_MULTIPLY | SYM_DIVIDE | SYM_POWER | SYM_REMAINDER
  | SYM_BITWISE_AND | SYM_BITWISE_OR | SYM_BITWISE_XOR | SYM_BITWISE_AND_NOT
  | SYM_NEGATE | SYM_BITWISE_NOT | SYM_ABSOLUTE | SYM_EVEN_Q | SYM_ODD_Q

datatype math_error = Error_Overflow | Error_Zero_Divide

text \<open>
  What the dispatcher hands back: an INTEGER! or LOGIC! in the output cell, a raised error,
  or the result of \<^verbatim>\<open>T_Decimal(frame_, verb)\<close> after both argument cells were overwritten
  with \<^verbatim>\<open>cast(REBDEC, num)\<close> and \<^verbatim>\<open>cast(REBDEC, arg)\<close>. \<open>Undefined_Behavior\<close> stands
  for a C operation executed outside its defined range.
\<close>

datatype bounce =
    Init_Integer REBI64
  | Init_Logic bool
  | RAISE math_error
  | T_Decimal SymId REBI64 REBI64
  | Undefined_Behavior

text \<open>
  \<^verbatim>\<open>REBTYPE(Integer)\<close> for a first argument \<open>num\<close> and, for the binary verbs, an INTEGER!
  second argument \<open>arg\<close> (the \<^verbatim>\<open>IS_INTEGER(val2)\<close> branch). The unary verbs ignore \<open>arg\<close>.
  COPY, ROUND and RANDOM are left out.
\<close>

definition T_Integer :: "SymId \<Rightarrow> REBI64 \<Rightarrow> REBI64 \<Rightarrow> bounce" where
  "T_Integer verb num arg =
     (case verb of
        SYM_ADD \<Rightarrow>
          (case REB_I64_ADD_OF num arg of
             None \<Rightarrow> RAISE Error_Overflow
           | Some anum \<Rightarrow> Init_Integer anum)
      | SYM_SUBTRACT \<Rightarrow>
          (case REB_I64_SUB_OF num arg of
             None \<Rightarrow> RAISE Error_Overflow
           | Some anum \<Rightarrow> Init_Integer anum)
      | SYM_MULTIPLY \<Rightarrow>
          (case REB_I64_MUL_OF num arg of
             None \<Rightarrow> RAISE Error_Overflow
           | Some p \<Rightarrow> Init_Integer p)
      | SYM_DIVIDE \<Rightarrow>
          (if arg = 0 then RAISE Error_Zero_Divide
           else if num = INT64_MIN \<and> arg = - 1 then RAISE Error_Overflow
           else (case i64_rem num arg of
                   None \<Rightarrow> Undefined_Behavior
                 | Some r \<Rightarrow>
                     if r = 0 then
                       (case i64_div num arg of
                          None \<Rightarrow> Undefined_Behavior
                        | Some q \<Rightarrow> Init_Integer q)
                     else T_Decimal SYM_DIVIDE num arg))
      | SYM_POWER \<Rightarrow> T_Decimal SYM_POWER num arg
      | SYM_REMAINDER \<Rightarrow>
          (if arg = 0 then RAISE Error_Zero_Divide
           else if arg \<noteq> - 1 then
             (case i64_rem num arg of
                None \<Rightarrow> Undefined_Behavior
              | Some r \<Rightarrow> Init_Integer r)
           else Init_Integer 0)
      | SYM_BITWISE_AND \<Rightarrow> Init_Integer (num AND arg)
      | SYM_BITWISE_OR \<Rightarrow> Init_Integer (num OR arg)
      | SYM_BITWISE_XOR \<Rightarrow> Init_Integer (num XOR arg)
      | SYM_BITWISE_AND_NOT \<Rightarrow> Init_Integer (num AND NOT arg)
      | SYM_NEGATE \<Rightarrow>
          (if num = INT64_MIN then RAISE Error_Overflow else Init_Integer (- num))
      | SYM_BITWISE_NOT \<Rightarrow> Init_Integer (NOT num)
      | SYM_ABSOLUTE \<Rightarrow>
          (if num = INT64_MIN then RAISE Error_Overflow
           else Init_Integer (if sint num < 0 then - num else num))
      | SYM_EVEN_Q \<Rightarrow> Init_Logic ((NOT num) AND 1 \<noteq> 0)
      | SYM_ODD_Q \<Rightarrow> Init_Logic (num AND 1 \<noteq> 0))"

section \<open>Path normalizer (extensions/filesystem/mod-filesystem.c)\<close>

text \<open>
  Strings are sequences of code points (\<^verbatim>\<open>Codepoint\<close> is an unsigned 32-bit number in
  the source). The C code walks a NUL-terminated UTF-8 buffer with \<^verbatim>\<open>NEXT_CHR\<close>, keeping
  the triple \<^verbatim>\<open>(c, up, i)\<close> with \<^verbatim>\<open>c\<close> the code point at index \<^verbatim>\<open>i\<close>; here the cursor
  is the list of code points from index \<^verbatim>\<open>i\<close> on, \<^verbatim>\<open>c\<close> is its head, and reading at
  the end of the string gives the terminator \<open>NUL\<close>.
\<close>

type_synonym Codepoint = nat

abbreviation NUL :: Codepoint where "NUL \<equiv> 0"
abbreviation DOT :: Codepoint where "DOT \<equiv> 46"
abbreviation SLASH :: Codepoint where "SLASH \<equiv> 47"
abbreviation COLON :: Codepoint where "COLON \<equiv> 58"
abbreviation BACKSLASH :: Codepoint where "BACKSLASH \<equiv> 92"

definition text_of :: "string \<Rightarrow> Codepoint list" where
  "text_of s = map of_char s"

fun chr_at :: "Codepoint list \<Rightarrow> Codepoint" where
  "chr_at [] = NUL"
| "chr_at (c # up) = c"

definition Last_In_Mold_Is_Slash :: "Codepoint list \<Rightarrow> bool" where
  "Last_In_Mold_Is_Slash mo \<longleftrightarrow> mo \<noteq> [] \<and> last mo = SLASH"

datatype path_error =
    Error_Vol_Format  \<comment> \<open>"no prior : or / allowed for vol:dir/file format"\<close>
  | Broken_Encoding   \<comment> \<open>the mold buffer is cut inside a multi-byte code point\<close>

subsection \<open>\<^verbatim>\<open>To_REBOL_Path\<close>\<close>

text \<open>
  One pass of the \<^verbatim>\<open>for\<close> loop over the local-format text. The mold buffer \<open>mo\<close> is
  taken relative to the position where \<^verbatim>\<open>Push_Mold\<close> found it. The pass ends in a
  failure, in the jump back to \<^verbatim>\<open>restart\<close> (the buffer is then reset to a single slash
  by the caller), or normally with the buffer.
\<close>

datatype loop_exit = Goto_Restart bool bool | Loop_Done "Codepoint list"

fun path_loop ::
  "bool \<Rightarrow> bool \<Rightarrow> bool \<Rightarrow> Codepoint list \<Rightarrow> Codepoint list \<Rightarrow> path_error + loop_exit"
where
  "path_loop lead_slash saw_colon saw_slash mo [] = Inr (Loop_Done mo)"
| "path_loop lead_slash saw_colon saw_slash mo (c # up) =
     (if c = COLON then
        (if saw_colon \<or> saw_slash then Inl Error_Vol_Format
         else if \<not> lead_slash then Inr (Goto_Restart saw_colon saw_slash)
         else
           (case up of
              [] \<Rightarrow> path_loop lead_slash True saw_slash (mo @ [SLASH, c]) []
            | c1 # up1 \<Rightarrow>
                if c1 = BACKSLASH \<or> c1 = SLASH then
                  (case up1 of
                     [] \<Rightarrow> Inr (Loop_Done (mo @ [SLASH]))
                   | c2 # up2 \<Rightarrow> path_loop lead_slash True saw_slash (mo @ [SLASH, c2]) up2)
                else path_loop lead_slash True saw_slash (mo @ [SLASH, c1]) up1))
      else if c = BACKSLASH \<or> c = SLASH then
        (if Last_In_Mold_Is_Slash mo then path_loop lead_slash saw_colon saw_slash mo up
         else path_loop lead_slash saw_colon True (mo @ [SLASH]) up)
      else path_loop lead_slash saw_colon saw_slash (mo @ [c]) up)"

text \<open>
  The passes: the first one starts with an empty buffer; the jump to \<^verbatim>\<open>restart\<close> sets
  \<^verbatim>\<open>lead_slash\<close>, leaves a single slash in the buffer and scans the text again from its
  head. A pass with \<^verbatim>\<open>lead_slash\<close> set never jumps back, so its \<open>Goto_Restart\<close> case
  is dead.
\<close>

function restart :: "bool \<Rightarrow> bool \<Rightarrow> bool \<Rightarrow> Codepoint list \<Rightarrow> path_error + Codepoint list"
where
  "restart lead_slash saw_colon saw_slash string =
     (case path_loop lead_slash saw_colon saw_slash (if lead_slash then [SLASH] else []) string of
        Inl e \<Rightarrow> Inl e
      | Inr (Loop_Done mo) \<Rightarrow> Inr mo
      | Inr (Goto_Restart sc ss) \<Rightarrow>
          if lead_slash then Inr [] else restart True sc ss string)"
  by pat_completeness auto
termination
  by (relation "measure (\<lambda>(lead_slash, sc, ss, s). if lead_slash then 0 else 1)") auto

definition To_REBOL_Path :: "Codepoint list \<Rightarrow> bool \<Rightarrow> path_error + Codepoint list" where
  "To_REBOL_Path string src_is_dir =
     (case restart False False False string of
        Inl e \<Rightarrow> Inl e
      | Inr mo \<Rightarrow>
          if src_is_dir \<and> \<not> Last_In_Mold_Is_Slash mo then Inr (mo @ [SLASH]) else Inr mo)"

subsection \<open>\<^verbatim>\<open>Mold_File_To_Local\<close>\<close>

definition OS_DIR_SEP :: "bool \<Rightarrow> Codepoint" where
  "OS_DIR_SEP to_windows = (if to_windows then BACKSLASH else SLASH)"

record local_flags =
  FILETOLOCAL_FULL :: bool
  FILETOLOCAL_NO_TAIL_SLASH :: bool

definition REB_FILETOLOCAL_0 :: local_flags where
  "REB_FILETOLOCAL_0 = \<lparr>FILETOLOCAL_FULL = False, FILETOLOCAL_NO_TAIL_SLASH = False\<rparr>"

text \<open>
  Backing up one directory for a \<^verbatim>\<open>..\<close> segment. \<open>seek_back\<close> is the \<^verbatim>\<open>while\<close> loop
  that walks \<^verbatim>\<open>n\<close> back until the code point at \<^verbatim>\<open>n\<close> is the separator or \<^verbatim>\<open>n\<close>
  reaches the start of the mold.

  The buffer is then terminated at length \<^verbatim>\<open>n\<close> and at byte size
  \<^verbatim>\<open>tp - STR_HEAD + 1\<close>, where \<^verbatim>\<open>tp\<close> has been moved one more code point back: the
  offset of the last code point kept, plus one. That is the size of \<^verbatim>\<open>n\<close> code points
  exactly when the last code point kept takes one byte (is below 128); otherwise the
  buffer ends inside that code point, which is \<open>Broken_Encoding\<close> here. For \<^verbatim>\<open>n = 0\<close>
  the byte before the mold is taken to be a one-byte character.
\<close>

fun seek_back :: "Codepoint \<Rightarrow> Codepoint list \<Rightarrow> nat \<Rightarrow> nat" where
  "seek_back sep mo 0 = 0"
| "seek_back sep mo (Suc n) = (if mo ! Suc n \<noteq> sep then seek_back sep mo n else Suc n)"

definition back_up_a_dir :: "Codepoint \<Rightarrow> Codepoint list \<Rightarrow> path_error + Codepoint list" where
  "back_up_a_dir sep mo =
     (if length mo > 0 then
        (let n1 = length mo - 1;
             n2 = (if n1 > 0 then n1 - 1 else n1);
             n = seek_back sep mo n2
         in if n > 0 \<and> mo ! (n - 1) \<ge> 128 then Inl Broken_Encoding else Inr (take n mo))
      else Inr mo)"

text \<open>
  The outer loop (\<open>prescan_segments\<close>, one iteration per path segment) and the inner
  \<^verbatim>\<open>segment_loop\<close>. The first argument is \<^verbatim>\<open>TO_WINDOWS\<close>, the second the
  \<^verbatim>\<open>REB_FILETOLOCAL_FULL\<close> bit.
\<close>

fun prescan_segments ::
  "bool \<Rightarrow> bool \<Rightarrow> Codepoint list \<Rightarrow> Codepoint list \<Rightarrow> path_error + Codepoint list"
and segment_loop ::
  "bool \<Rightarrow> bool \<Rightarrow> Codepoint list \<Rightarrow> Codepoint list \<Rightarrow> path_error + Codepoint list"
where
  "prescan_segments w full mo [] = Inr mo"
| "prescan_segments w full mo (c # up) =
     (if full \<and> c = DOT then
        (case up of
           [] \<Rightarrow> Inr mo
         | c1 # up1 \<Rightarrow>
             if c1 = NUL then Inr mo
             else if c1 = SLASH then prescan_segments w full mo up1
             else if c1 \<noteq> DOT then segment_loop w full (mo @ [DOT]) (c1 # up1)
             else
               (case up1 of
                  [] \<Rightarrow>
                    (case back_up_a_dir (OS_DIR_SEP w) mo of
                       Inl e \<Rightarrow> Inl e
                     | Inr mo' \<Rightarrow> Inr (mo' @ [OS_DIR_SEP w]))
                | c2 # up2 \<Rightarrow>
                    if c2 = NUL \<or> c2 = SLASH then
                      (case back_up_a_dir (OS_DIR_SEP w) mo of
                         Inl e \<Rightarrow> Inl e
                       | Inr mo' \<Rightarrow> prescan_segments w full (mo' @ [OS_DIR_SEP w]) up2)
                    else segment_loop w full (mo @ [DOT, DOT]) (c2 # up2)))
      else segment_loop w full mo (c # up))"
| "segment_loop w full mo [] = Inr mo"
| "segment_loop w full mo (c # up) =
     (if c \<noteq> SLASH then segment_loop w full (mo @ [c]) up
      else if mo \<noteq> [] \<and> last mo = OS_DIR_SEP w then segment_loop w full mo up
      else prescan_segments w full (mo @ [OS_DIR_SEP w]) up)"

text \<open>
  The head of the function: the prescan of a leading slash (with the drive letter
  translation under \<^verbatim>\<open>TO_WINDOWS\<close>), or the current directory in front of a relative
  path when the full path is asked for. It yields the buffer and the cursor the segment
  loops start from. \<open>cwd_local\<close> is what the recursive call
  \<^verbatim>\<open>Mold_File_To_Local(mo, lpath, REB_FILETOLOCAL_0)\<close> appends for the current directory.
\<close>

definition prescan_head ::
  "bool \<Rightarrow> path_error + Codepoint list \<Rightarrow> bool \<Rightarrow> Codepoint list
     \<Rightarrow> path_error + (Codepoint list \<times> Codepoint list)"
where
  "prescan_head w cwd_local full file =
     (if chr_at file = SLASH then
        (let up = tl file; c = chr_at up in
         if w \<and> c \<noteq> NUL \<and> c \<noteq> SLASH then
           (if chr_at (tl up) = SLASH
            then Inr ([c, COLON, OS_DIR_SEP w], tl (tl up))
            else Inr ([OS_DIR_SEP w, OS_DIR_SEP w], up))
         else Inr ([OS_DIR_SEP w], up))
      else if full then
        (case cwd_local of Inl e \<Rightarrow> Inl e | Inr mo \<Rightarrow> Inr (mo, file))
      else Inr ([], file))"

definition trim_tail_slash :: "bool \<Rightarrow> bool \<Rightarrow> Codepoint list \<Rightarrow> Codepoint list" where
  "trim_tail_slash w no_tail_slash mo =
     (if no_tail_slash \<and> mo \<noteq> [] \<and> last mo = OS_DIR_SEP w then butlast mo else mo)"

text \<open>
  \<^verbatim>\<open>Mold_File_To_Local\<close> into an empty mold, that is \<^verbatim>\<open>To_Local_Path\<close>. The arguments
  are \<^verbatim>\<open>TO_WINDOWS\<close>, the FILE! that \<^verbatim>\<open>Get_Current_Dir_Value()\<close> returns, the FILE! to
  convert and the flags. The function calls itself once, without the full flag, for the
  current directory.
\<close>

function Mold_File_To_Local ::
  "bool \<Rightarrow> Codepoint list \<Rightarrow> Codepoint list \<Rightarrow> local_flags \<Rightarrow> path_error + Codepoint list"
where
  "Mold_File_To_Local w cwd file flags =
     (case prescan_head w
             (if FILETOLOCAL_FULL flags \<and> chr_at file \<noteq> SLASH
              then Mold_File_To_Local w cwd cwd REB_FILETOLOCAL_0 else Inr [])
             (FILETOLOCAL_FULL flags) file of
        Inl e \<Rightarrow> Inl e
      | Inr (mo, up) \<Rightarrow>
          (case prescan_segments w (FILETOLOCAL_FULL flags) mo up of
             Inl e \<Rightarrow> Inl e
           | Inr mo' \<Rightarrow> Inr (trim_tail_slash w (FILETOLOCAL_NO_TAIL_SLASH flags) mo')))"
  by pat_completeness auto
termination
  by (relation "measure (\<lambda>(w, cwd, file, flags). if FILETOLOCAL_FULL flags then 1 else 0)")
    (auto simp: REB_FILETOLOCAL_0_def)

subsection \<open>The round trip and the shape of a path\<close>

text \<open>
  The law relates a FILE! to the result of converting it to the local form without the
  full option and back with \<^verbatim>\<open>src-is-dir\<close> false. Its side conditions speak of
  redundant slashes (two slashes in a row) and of \<^verbatim>\<open>.\<close> and \<^verbatim>\<open>..\<close> segments, the
  segments being the pieces between slashes. \<open>to_sep\<close> is the translation of one code
  point into the local form.
\<close>

fun no_redundant_slashes :: "Codepoint list \<Rightarrow> bool" where
  "no_redundant_slashes (a # b # p) \<longleftrightarrow> \<not> (a = SLASH \<and> b = SLASH) \<and> no_redundant_slashes (b # p)"
| "no_redundant_slashes p \<longleftrightarrow> True"

definition to_sep :: "bool \<Rightarrow> Codepoint \<Rightarrow> Codepoint" where
  "to_sep w c = (if c = SLASH then OS_DIR_SEP w else c)"

definition round_trip :: "bool \<Rightarrow> Codepoint list \<Rightarrow> Codepoint list \<Rightarrow> path_error + Codepoint list"
where
  "round_trip w cwd p =
     (case Mold_File_To_Local w cwd p REB_FILETOLOCAL_0 of
        Inl e \<Rightarrow> Inl e
      | Inr local \<Rightarrow> To_REBOL_Path local False)"

fun path_segments :: "Codepoint list \<Rightarrow> Codepoint list list" where
  "path_segments [] = [[]]"
| "path_segments (c # p) =
     (if c = SLASH then [] # path_segments p
      else (case path_segments p of
              [] \<Rightarrow> [[c]]
            | seg # segs \<Rightarrow> (c # seg) # segs))"

definition no_dot_segments :: "Codepoint list \<Rightarrow> bool" where
  "no_dot_segments p \<longleftrightarrow> [DOT] \<notin> set (path_segments p) \<and> [DOT, DOT] \<notin> set (path_segments p)"

section \<open>Properties of the integer math verbs\<close>

lemma sint_INT64_MIN: "sint INT64_MIN = - (2 ^ 63)"
  by (simp add: INT64_MIN_def)

lemma sint_range64: "fits_i64 (sint (x::REBI64))"
  using sint_ge [of x] sint_lt [of x] by (simp add: fits_i64_def)

lemma stb_fits: "fits_i64 k \<Longrightarrow> signed_take_bit (63::nat) k = k"
  unfolding fits_i64_def by (rule signed_take_bit_int_eq_self) simp_all

lemma sint_word_of_int_fits: "fits_i64 k \<Longrightarrow> sint (word_of_int k :: REBI64) = k"
  by (simp only: sint_sbintrunc' stb_fits) (simp add: stb_fits)

lemma add_ok: "fits_i64 (sint a + sint b) \<Longrightarrow>
   \<exists>r. T_Integer SYM_ADD a b = Init_Integer r \<and> sint r = sint a + sint b"
  by (simp add: T_Integer_def REB_I64_ADD_OF_def sint_word_add stb_fits)

lemma sub_ok: "fits_i64 (sint a - sint b) \<Longrightarrow>
   \<exists>r. T_Integer SYM_SUBTRACT a b = Init_Integer r \<and> sint r = sint a - sint b"
  by (simp add: T_Integer_def REB_I64_SUB_OF_def sint_word_diff stb_fits)

lemma mul_ok: "fits_i64 (sint a * sint b) \<Longrightarrow>
   \<exists>r. T_Integer SYM_MULTIPLY a b = Init_Integer r \<and> sint r = sint a * sint b"
  by (simp add: T_Integer_def REB_I64_MUL_OF_def sint_word_mult stb_fits)

lemma add_ov: "\<not> fits_i64 (sint a + sint b) \<Longrightarrow> T_Integer SYM_ADD a b = RAISE Error_Overflow"
  by (simp add: T_Integer_def REB_I64_ADD_OF_def)

lemma smod_zero_iff_dvd: "(a::int) smod b = 0 \<longleftrightarrow> b dvd a"
proof -
  have "a smod b = 0 \<longleftrightarrow> \<bar>a\<bar> mod \<bar>b\<bar> = 0"
    by (cases "a = 0") (simp_all add: signed_modulo_int_def sgn_eq_0_iff)
  also have "\<dots> \<longleftrightarrow> \<bar>b\<bar> dvd \<bar>a\<bar>"
    by (simp add: dvd_eq_mod_eq_0)
  also have "\<dots> \<longleftrightarrow> b dvd a"
    by simp
  finally show ?thesis .
qed
     
lemma dvd_sdiv: "b \<noteq> 0 \<Longrightarrow> (b::int) dvd a \<Longrightarrow> (a sdiv b) * b = a"
  using sdiv_mult_smod_eq [of a b] smod_zero_iff_dvd [of a b] by simp

lemma sdiv_abs: "\<bar>(a::int) sdiv b\<bar> = \<bar>a\<bar> div \<bar>b\<bar>"
proof -
  have nn: "0 \<le> \<bar>a\<bar> div \<bar>b\<bar>"
    by (cases "b = 0") (simp_all add: pos_imp_zdiv_nonneg_iff)
  show ?thesis
    using nn by (cases "a = 0"; cases "b = 0") (simp_all add: signed_divide_int_def abs_mult abs_sgn_eq)
qed

lemma smod_abs_lt: "b \<noteq> 0 \<Longrightarrow> \<bar>(a::int) smod b\<bar> < \<bar>b\<bar>"
  by (auto simp: signed_modulo_int_def sgn_if abs_mult)

lemma smod_fits:
  assumes "fits_i64 b" "b \<noteq> 0"
  shows "fits_i64 (a smod b)"
  using smod_abs_lt [OF assms(2), of a] assms(1) unfolding fits_i64_def by linarith

lemma sdiv_fits: 
  assumes "fits_i64 a" "fits_i64 b" "b \<noteq> 0" "\<not> (a = - (2 ^ 63) \<and> b = - 1)"
  shows "fits_i64 (a sdiv b)"
proof (cases "\<bar>b\<bar> = 1")
  case True
  then consider "b = 1" | "b = - 1" by linarith
  then show ?thesis
  proof cases
    case 1 with assms show ?thesis by simp
  next
    case 2 with assms show ?thesis by (simp add: fits_i64_def)
  qed
next
  case False
  with assms(3) have b2: "2 \<le> \<bar>b\<bar>" by linarith
  have "\<bar>a\<bar> div \<bar>b\<bar> \<le> \<bar>a\<bar> div 2"
    using b2 by (intro zdiv_mono2) auto
  moreover have "\<bar>a\<bar> \<le> 2 ^ 63" using assms(1) by (auto simp: fits_i64_def)
  ultimately have "\<bar>a sdiv b\<bar> < 2 ^ 63" by (simp add: sdiv_abs)
  then show ?thesis unfolding fits_i64_def by linarith
qed

lemma divide_exact:
  assumes "arg \<noteq> 0" "\<not> (num = INT64_MIN \<and> arg = - 1)" "sint arg dvd sint num"
  shows "\<exists>q. T_Integer SYM_DIVIDE num arg = Init_Integer q \<and> sint q * sint arg = sint num"
proof -
  have nz: "sint arg \<noteq> 0" using assms(1) by (simp add: signed_eq_0_iff)
  have nm: "\<not> (sint num = - (2 ^ 63) \<and> sint arg = - 1)"
  proof
    assume h: "sint num = - (2 ^ 63) \<and> sint arg = - 1"
    then have "sint num = sint INT64_MIN" "sint arg = sint (- 1 :: REBI64)"
      by (simp_all add: sint_INT64_MIN)
    then have "num = INT64_MIN \<and> arg = - 1" by (simp only: word_eq_iff_signed [where ?'a = int]) 
    with assms(2) show False by simp
  qed
  have r0: "sint num smod sint arg = 0" using assms(3) nz by (simp add: smod_zero_iff_dvd)
  have q: "sint (word_of_int (sint num sdiv sint arg) :: REBI64) = sint num sdiv sint arg"
    by (rule sint_word_of_int_fits) (rule sdiv_fits [OF sint_range64 sint_range64 nz nm])
  have "T_Integer SYM_DIVIDE num arg = Init_Integer (word_of_int (sint num sdiv sint arg))"
    using assms(1,2) r0 by (simp add: T_Integer_def i64_rem_def i64_div_def)
  moreover have "sint (word_of_int (sint num sdiv sint arg) :: REBI64) * sint arg = sint num"
    using dvd_sdiv [OF nz assms(3)] q by simp
  ultimately show ?thesis by blast
qed

lemma divide_inexact:
  assumes "arg \<noteq> 0" "\<not> sint arg dvd sint num"
  shows "T_Integer SYM_DIVIDE num arg = T_Decimal SYM_DIVIDE num arg"
proof -
  have nz: "sint arg \<noteq> 0" using assms(1) by (simp add: signed_eq_0_iff)
  have nm: "\<not> (num = INT64_MIN \<and> arg = - 1)"
    using assms(2) by auto
  have r: "sint num smod sint arg \<noteq> 0" using assms(2) nz by (simp add: smod_zero_iff_dvd)
  have "sint (word_of_int (sint num smod sint arg) :: REBI64) = sint num smod sint arg"
    by (rule sint_word_of_int_fits) (rule smod_fits [OF sint_range64 nz])
  with r have "(word_of_int (sint num smod sint arg) :: REBI64) \<noteq> 0"
    by (metis signed_eq_0_iff)
  then show ?thesis
    using assms(1) nm by (simp add: T_Integer_def i64_rem_def)
qed


lemma sub_ov:
  "\<not> fits_i64 (sint a - sint b) \<Longrightarrow> T_Integer SYM_SUBTRACT a b = RAISE Error_Overflow"
  by (simp add: T_Integer_def REB_I64_SUB_OF_def)

lemma mul_ov:
  "\<not> fits_i64 (sint a * sint b) \<Longrightarrow> T_Integer SYM_MULTIPLY a b = RAISE Error_Overflow"
  by (simp add: T_Integer_def REB_I64_MUL_OF_def)

lemma divide_zero: "T_Integer SYM_DIVIDE num 0 = RAISE Error_Zero_Divide"
  by (simp add: T_Integer_def)

lemma divide_min_by_minus_one: "T_Integer SYM_DIVIDE INT64_MIN (- 1) = RAISE Error_Overflow"
  by (simp add: T_Integer_def)

lemma power_promotes: "T_Integer SYM_POWER num arg = T_Decimal SYM_POWER num arg"
  by (simp add: T_Integer_def)

lemma remainder_value:
  assumes "arg \<noteq> 0"
  shows "\<exists>r. T_Integer SYM_REMAINDER n arg = Init_Integer r \<and> sint r = sint n smod sint arg"
proof (cases "arg = - 1")
  case True
  then show ?thesis by (simp add: T_Integer_def signed_modulo_int_def)
next
  case False
  have nz: "sint arg \<noteq> 0" using assms by (simp add: signed_eq_0_iff)
  have "sint (word_of_int (sint n smod sint arg) :: REBI64) = sint n smod sint arg"
    by (rule sint_word_of_int_fits) (rule smod_fits [OF sint_range64 nz])
  then show ?thesis
    using assms False by (simp add: T_Integer_def i64_rem_def)
qed

text \<open>
  C2 (as the code has it). For INTEGER! operands \<open>num\<close> and \<open>arg\<close>: ADD, SUBTRACT and
  MULTIPLY give the exact result when it fits in signed 64 bits and raise \<open>overflow\<close>
  otherwise; DIVIDE raises \<open>zero-divide\<close> for a zero divisor, raises \<open>overflow\<close> for
  \<open>INT64_MIN\<close> by \<open>-1\<close> (whose quotient does not fit), gives the exact quotient when the
  divisor divides the dividend, and otherwise hands both operands to the decimal
  dispatcher; POWER always hands both operands to the decimal dispatcher.
\<close>

theorem integer_math_verbs:
  "(fits_i64 (sint num + sint arg) \<longrightarrow>
      (\<exists>r. T_Integer SYM_ADD num arg = Init_Integer r \<and> sint r = sint num + sint arg))
   \<and> (\<not> fits_i64 (sint num + sint arg) \<longrightarrow>
      T_Integer SYM_ADD num arg = RAISE Error_Overflow)
   \<and> (fits_i64 (sint num - sint arg) \<longrightarrow>
      (\<exists>r. T_Integer SYM_SUBTRACT num arg = Init_Integer r \<and> sint r = sint num - sint arg))
   \<and> (\<not> fits_i64 (sint num - sint arg) \<longrightarrow>
      T_Integer SYM_SUBTRACT num arg = RAISE Error_Overflow)
   \<and> (fits_i64 (sint num * sint arg) \<longrightarrow>
      (\<exists>r. T_Integer SYM_MULTIPLY num arg = Init_Integer r \<and> sint r = sint num * sint arg))
   \<and> (\<not> fits_i64 (sint num * sint arg) \<longrightarrow>
      T_Integer SYM_MULTIPLY num arg = RAISE Error_Overflow)
   \<and> (arg = 0 \<longrightarrow> T_Integer SYM_DIVIDE num arg = RAISE Error_Zero_Divide)
   \<and> (num = INT64_MIN \<and> arg = - 1 \<longrightarrow>
      T_Integer SYM_DIVIDE num arg = RAISE Error_Overflow)
   \<and> (arg \<noteq> 0 \<and> \<not> (num = INT64_MIN \<and> arg = - 1) \<and> sint arg dvd sint num \<longrightarrow>
      (\<exists>q. T_Integer SYM_DIVIDE num arg = Init_Integer q \<and> sint q * sint arg = sint num))
   \<and> (arg \<noteq> 0 \<and> \<not> sint arg dvd sint num \<longrightarrow>
      T_Integer SYM_DIVIDE num arg = T_Decimal SYM_DIVIDE num arg)
   \<and> T_Integer SYM_POWER num arg = T_Decimal SYM_POWER num arg"
  using add_ok [of num arg] add_ov [of num arg] sub_ok [of num arg] sub_ov [of num arg]
    mul_ok [of num arg] mul_ov [of num arg] divide_zero [of num] divide_min_by_minus_one
    divide_exact [of arg num] divide_inexact [of arg num] power_promotes [of num arg]
  by auto

theorem integer_math_verbs_witness:
  "T_Integer SYM_ADD 12 4 = Init_Integer 16
   \<and> T_Integer SYM_SUBTRACT 12 4 = Init_Integer 8
   \<and> T_Integer SYM_MULTIPLY 12 4 = Init_Integer 48
   \<and> T_Integer SYM_DIVIDE 12 4 = Init_Integer 3
   \<and> T_Integer SYM_DIVIDE 12 5 = T_Decimal SYM_DIVIDE 12 5
   \<and> T_Integer SYM_DIVIDE 12 0 = RAISE Error_Zero_Divide
   \<and> T_Integer SYM_DIVIDE INT64_MIN (- 1) = RAISE Error_Overflow
   \<and> T_Integer SYM_ADD 9223372036854775807 1 = RAISE Error_Overflow
   \<and> T_Integer SYM_SUBTRACT INT64_MIN 1 = RAISE Error_Overflow
   \<and> T_Integer SYM_MULTIPLY 4611686018427387904 2 = RAISE Error_Overflow"
  using integer_math_verbs [of 12 4] integer_math_verbs [of 12 5] integer_math_verbs [of 12 0]
    integer_math_verbs [of INT64_MIN "- 1"] integer_math_verbs [of 9223372036854775807 1]
    integer_math_verbs [of INT64_MIN 1] integer_math_verbs [of 4611686018427387904 2]
  by (simp add: T_Integer_def REB_I64_ADD_OF_def REB_I64_SUB_OF_def REB_I64_MUL_OF_def
      i64_rem_def i64_div_def fits_i64_def INT64_MIN_def signed_modulo_int_def
      signed_divide_int_def)

text \<open>
  C2 as stated fails for DIVIDE at \<open>INT64_MIN\<close> by \<open>-1\<close>: the divisor is not zero and
  divides the dividend evenly, yet the verb raises \<open>overflow\<close> instead of returning the
  quotient.
\<close>

theorem divide_even_counterexample:
  "(- 1 :: REBI64) \<noteq> 0
   \<and> sint (- 1 :: REBI64) dvd sint INT64_MIN
   \<and> T_Integer SYM_DIVIDE INT64_MIN (- 1) = RAISE Error_Overflow"
  by (simp add: T_Integer_def)

text \<open>
  C10. REMAINDER of any \<open>n\<close> by \<open>-1\<close> is \<open>0\<close>: the divisor \<open>-1\<close> never reaches the
  machine remainder, which has no defined result for \<open>INT64_MIN\<close> by \<open>-1\<close>; and for
  every non-zero divisor REMAINDER returns an integer, the truncated remainder, so no error
  and no undefined operation is left once the zero check has passed.
\<close>

theorem remainder_by_minus_one:
  "T_Integer SYM_REMAINDER n (- 1) = Init_Integer 0
   \<and> i64_rem INT64_MIN (- 1) = None
   \<and> (arg \<noteq> 0 \<longrightarrow>
        (\<exists>r. T_Integer SYM_REMAINDER n arg = Init_Integer r \<and> sint r = sint n smod sint arg))"
  using remainder_value [of arg n]
  by (simp add: T_Integer_def i64_rem_def)

theorem remainder_by_minus_one_witness:
  "T_Integer SYM_REMAINDER INT64_MIN (- 1) = Init_Integer 0
   \<and> (- 7 :: REBI64) \<noteq> 0
   \<and> T_Integer SYM_REMAINDER 23 (- 7) = Init_Integer 2
   \<and> T_Integer SYM_REMAINDER (- 23) 7 = Init_Integer (- 2)"
  using remainder_by_minus_one [of INT64_MIN "- 7"] remainder_by_minus_one [of 23 "- 7"]
    remainder_by_minus_one [of "- 23" 7]
  by (simp add: T_Integer_def i64_rem_def INT64_MIN_def signed_modulo_int_def)

section \<open>Properties of the path normalizer\<close>


lemma to_sep_slash: "to_sep w SLASH = OS_DIR_SEP w"
  by (simp add: to_sep_def)

lemma to_sep_other: "c \<noteq> SLASH \<Longrightarrow> to_sep w c = c"
  by (simp add: to_sep_def)

lemma prescan_no_full: "prescan_segments w False mo up = segment_loop w False mo up"
  by (cases up) simp_all

lemma nrs_tl: "no_redundant_slashes (c # up) \<Longrightarrow> no_redundant_slashes up"
  by (cases up) auto

lemma nrs_next: "no_redundant_slashes (SLASH # up) \<Longrightarrow> chr_at up \<noteq> SLASH"
  by (cases up) auto

lemma segment_loop_copies:
  "no_redundant_slashes up \<Longrightarrow> BACKSLASH \<notin> set up
     \<Longrightarrow> (mo \<noteq> [] \<and> last mo = OS_DIR_SEP w \<longrightarrow> chr_at up \<noteq> SLASH)
     \<Longrightarrow> segment_loop w False mo up = Inr (mo @ map (to_sep w) up)"
proof (induction up arbitrary: mo)
  case Nil
  then show ?case by simp
next
  case (Cons c up)
  have nds: "no_redundant_slashes up" using Cons.prems(1) by (rule nrs_tl)
  have nb: "BACKSLASH \<notin> set up" "c \<noteq> BACKSLASH" using Cons.prems(2) by auto
  show ?case
  proof (cases "c = SLASH")
    case True
    with Cons.prems have nolast: "\<not> (mo \<noteq> [] \<and> last mo = OS_DIR_SEP w)" by simp
    from True Cons.prems(1) have nxt: "chr_at up \<noteq> SLASH" by (simp add: nrs_next)
    have "segment_loop w False (mo @ [OS_DIR_SEP w]) up
            = Inr ((mo @ [OS_DIR_SEP w]) @ map (to_sep w) up)"
      using nds nb nxt by (intro Cons.IH) auto
    then show ?thesis using True nolast by (auto simp: prescan_no_full to_sep_slash)
  next
    case False
    have "c \<noteq> OS_DIR_SEP w" using False nb by (simp add: OS_DIR_SEP_def)
    then have "segment_loop w False (mo @ [c]) up = Inr ((mo @ [c]) @ map (to_sep w) up)"
      using nds nb by (intro Cons.IH) auto
    then show ?thesis using False by (simp add: to_sep_other)
  qed
qed

lemma path_loop_copies:
  "no_redundant_slashes up \<Longrightarrow> COLON \<notin> set up \<Longrightarrow> BACKSLASH \<notin> set up
     \<Longrightarrow> (Last_In_Mold_Is_Slash mo \<longrightarrow> chr_at up \<noteq> SLASH)
     \<Longrightarrow> path_loop ls sc ss mo (map (to_sep w) up) = Inr (Loop_Done (mo @ up))"
proof (induction up arbitrary: mo ss)
  case Nil
  then show ?case by simp
next
  case (Cons c up)
  have nds: "no_redundant_slashes up" using Cons.prems(1) by (rule nrs_tl)
  from Cons.prems have nc: "c \<noteq> COLON" "c \<noteq> BACKSLASH" "COLON \<notin> set up" "BACKSLASH \<notin> set up"
    by auto
  show ?case
  proof (cases "c = SLASH")
    case True
    with Cons.prems have nolast: "\<not> Last_In_Mold_Is_Slash mo" by simp
    from True Cons.prems(1) have nxt: "chr_at up \<noteq> SLASH" by (simp add: nrs_next)
    have "path_loop ls sc True (mo @ [SLASH]) (map (to_sep w) up)
            = Inr (Loop_Done ((mo @ [SLASH]) @ up))"
      using nds nc nxt by (intro Cons.IH) auto
    then show ?thesis using True nolast by (simp add: to_sep_slash OS_DIR_SEP_def)
  next
    case False
    have "path_loop ls sc ss (mo @ [c]) (map (to_sep w) up) = Inr (Loop_Done ((mo @ [c]) @ up))"
      using nds nc False by (intro Cons.IH) (auto simp: Last_In_Mold_Is_Slash_def)
    then show ?thesis using False nc by (simp add: to_sep_other)
  qed
qed

lemma to_rebol_of_copy:
  assumes "no_redundant_slashes p" "COLON \<notin> set p" "BACKSLASH \<notin> set p"
  shows "To_REBOL_Path (map (to_sep w) p) False = Inr p"
proof -
  have "path_loop False False False [] (map (to_sep w) p) = Inr (Loop_Done ([] @ p))"
    using assms by (intro path_loop_copies) (auto simp: Last_In_Mold_Is_Slash_def)
  then show ?thesis by (simp add: To_REBOL_Path_def)
qed

text \<open>POSIX, and every path that does not start with a slash.\<close>

lemma to_local_relative:
  assumes "no_redundant_slashes p" "BACKSLASH \<notin> set p" "chr_at p \<noteq> SLASH"
  shows "Mold_File_To_Local w cwd p REB_FILETOLOCAL_0 = Inr (map (to_sep w) p)"
proof -
  have "segment_loop w False [] p = Inr ([] @ map (to_sep w) p)"
    using assms by (intro segment_loop_copies) auto
  then show ?thesis using assms(3)
    by (simp add: prescan_head_def REB_FILETOLOCAL_0_def trim_tail_slash_def prescan_no_full)
qed

lemma to_local_posix_absolute:
  assumes "no_redundant_slashes (SLASH # up)" "BACKSLASH \<notin> set up"
  shows "Mold_File_To_Local False cwd (SLASH # up) REB_FILETOLOCAL_0
           = Inr (map (to_sep False) (SLASH # up))"
proof -
  have "segment_loop False False [OS_DIR_SEP False] up
          = Inr ([OS_DIR_SEP False] @ map (to_sep False) up)"
    using assms nrs_next [OF assms(1)] nrs_tl [OF assms(1)] by (intro segment_loop_copies) auto
  then show ?thesis
    by (simp add: prescan_head_def REB_FILETOLOCAL_0_def trim_tail_slash_def prescan_no_full
        to_sep_slash)
qed


lemma round_trip_relative:
  assumes "no_redundant_slashes p" "COLON \<notin> set p" "BACKSLASH \<notin> set p" "chr_at p \<noteq> SLASH"
  shows "round_trip w cwd p = Inr p"
  using to_local_relative [OF assms(1,3,4)] to_rebol_of_copy [OF assms(1,2,3)]
  by (simp add: round_trip_def)

lemma round_trip_posix_absolute:
  assumes "no_redundant_slashes (SLASH # up)" "COLON \<notin> set up" "BACKSLASH \<notin> set up"
  shows "round_trip False cwd (SLASH # up) = Inr (SLASH # up)"
  using to_local_posix_absolute [OF assms(1,3)] to_rebol_of_copy [of "SLASH # up" False] assms
  by (simp add: round_trip_def)

text \<open>Windows, a path with a leading slash: the three shapes the prescan tells apart.\<close>

lemma to_local_windows_root:
  assumes "no_redundant_slashes (SLASH # up)" "BACKSLASH \<notin> set up" "chr_at up = NUL"
  shows "Mold_File_To_Local True cwd (SLASH # up) REB_FILETOLOCAL_0
           = Inr (map (to_sep True) (SLASH # up))"
proof -
  have "segment_loop True False [OS_DIR_SEP True] up
          = Inr ([OS_DIR_SEP True] @ map (to_sep True) up)"
    using assms nrs_tl [OF assms(1)] by (intro segment_loop_copies) auto
  then show ?thesis using assms(3)
    by (simp add: prescan_head_def REB_FILETOLOCAL_0_def trim_tail_slash_def prescan_no_full
        to_sep_slash)
qed

lemma to_local_windows_drive:
  assumes "no_redundant_slashes (SLASH # c # SLASH # rest)" "BACKSLASH \<notin> set rest"
    "c \<noteq> NUL" "c \<noteq> SLASH"
  shows "Mold_File_To_Local True cwd (SLASH # c # SLASH # rest) REB_FILETOLOCAL_0
           = Inr ([c, COLON, BACKSLASH] @ map (to_sep True) rest)"
proof -
  have n1: "no_redundant_slashes (SLASH # rest)"
    using assms(1) nrs_tl by blast
  have "segment_loop True False [c, COLON, OS_DIR_SEP True] rest
          = Inr ([c, COLON, OS_DIR_SEP True] @ map (to_sep True) rest)"
    using assms(2) nrs_tl [OF n1] nrs_next [OF n1] by (intro segment_loop_copies) auto
  then show ?thesis using assms(3,4)
    by (simp add: prescan_head_def REB_FILETOLOCAL_0_def trim_tail_slash_def prescan_no_full
        OS_DIR_SEP_def)
qed

lemma to_local_windows_share:
  assumes "no_redundant_slashes (SLASH # up)" "BACKSLASH \<notin> set up"
    "chr_at up \<noteq> NUL" "chr_at (tl up) \<noteq> SLASH"
  shows "Mold_File_To_Local True cwd (SLASH # up) REB_FILETOLOCAL_0
           = Inr ([BACKSLASH, BACKSLASH] @ map (to_sep True) up)"
proof -
  have "segment_loop True False [OS_DIR_SEP True, OS_DIR_SEP True] up
          = Inr ([OS_DIR_SEP True, OS_DIR_SEP True] @ map (to_sep True) up)"
    using assms(2) nrs_tl [OF assms(1)] nrs_next [OF assms(1)]
    by (intro segment_loop_copies) auto
  then show ?thesis using assms(3,4) nrs_next [OF assms(1)]
    by (simp add: prescan_head_def REB_FILETOLOCAL_0_def trim_tail_slash_def prescan_no_full
        OS_DIR_SEP_def)
qed

lemma to_rebol_windows_drive:
  assumes "no_redundant_slashes (SLASH # rest)" "COLON \<notin> set rest" "BACKSLASH \<notin> set rest"
    "c \<noteq> SLASH" "c \<noteq> COLON" "c \<noteq> BACKSLASH"
  shows "To_REBOL_Path ([c, COLON, BACKSLASH] @ map (to_sep True) rest) False
           = Inr (SLASH # c # SLASH # rest)"
proof (cases rest)
  case Nil
  then show ?thesis using assms(4,5,6)
    by (simp add: To_REBOL_Path_def Last_In_Mold_Is_Slash_def)
next
  case (Cons c2 up2)
  have c2: "c2 \<noteq> SLASH" "c2 \<noteq> COLON" "c2 \<noteq> BACKSLASH"
    using assms(1,2,3) Cons by auto
  have "no_redundant_slashes (c2 # up2)"
    using assms(1) Cons nrs_tl by blast
  then have up2: "no_redundant_slashes up2" "COLON \<notin> set up2" "BACKSLASH \<notin> set up2"
    using assms(2,3) Cons nrs_tl by auto
  have "path_loop True True False ([SLASH, c] @ [SLASH, c2]) (map (to_sep True) up2)
          = Inr (Loop_Done (([SLASH, c] @ [SLASH, c2]) @ up2))"
    using up2 c2 by (intro path_loop_copies) (auto simp: Last_In_Mold_Is_Slash_def)
  then show ?thesis using assms(4,5,6) c2 Cons
    by (simp add: To_REBOL_Path_def Last_In_Mold_Is_Slash_def to_sep_other)
qed

lemma to_rebol_windows_share:
  assumes "no_redundant_slashes (SLASH # up)" "COLON \<notin> set up" "BACKSLASH \<notin> set up"
  shows "To_REBOL_Path ([BACKSLASH, BACKSLASH] @ map (to_sep True) up) False = Inr (SLASH # up)"
proof -
  have "path_loop False False True [SLASH] (map (to_sep True) up)
          = Inr (Loop_Done ([SLASH] @ up))"
    using assms nrs_tl [OF assms(1)] nrs_next [OF assms(1)]
    by (intro path_loop_copies) (auto simp: Last_In_Mold_Is_Slash_def)
  then show ?thesis
    by (simp add: To_REBOL_Path_def Last_In_Mold_Is_Slash_def)
qed

lemma round_trip_windows_absolute:
  assumes "no_redundant_slashes (SLASH # up)" "COLON \<notin> set up" "BACKSLASH \<notin> set up"
  shows "round_trip True cwd (SLASH # up) = Inr (SLASH # up)"
proof (cases "chr_at up = NUL")
  case True
  then show ?thesis
    using to_local_windows_root [OF assms(1,3) True] to_rebol_of_copy [of "SLASH # up" True] assms
    by (simp add: round_trip_def)
next
  case nonul: False
  show ?thesis
  proof (cases "chr_at (tl up) = SLASH")
    case True
    with nonul obtain c rest where up: "up = c # SLASH # rest"
      by (cases up; cases "tl up") auto
    have c: "c \<noteq> NUL" "c \<noteq> SLASH" "c \<noteq> COLON" "c \<noteq> BACKSLASH"
      using nonul up assms nrs_next [OF assms(1)] by auto
    have "no_redundant_slashes (c # SLASH # rest)"
      using assms(1) up nrs_tl by blast
    then have r: "no_redundant_slashes (SLASH # rest)" "COLON \<notin> set rest" "BACKSLASH \<notin> set rest"
      using assms(2,3) up nrs_tl by auto
    show ?thesis
      using to_local_windows_drive [of c rest cwd] to_rebol_windows_drive [of rest c] assms c r
      unfolding up by (simp add: round_trip_def)
  next
    case False
    show ?thesis
      using to_local_windows_share [OF assms(1,3) nonul False] to_rebol_windows_share [OF assms]
      by (simp add: round_trip_def)
  qed
qed

lemma round_trip_any_host:
  assumes "no_redundant_slashes p" "COLON \<notin> set p" "BACKSLASH \<notin> set p"
  shows "round_trip w cwd p = Inr p"
proof (cases "chr_at p = SLASH")
  case False
  then show ?thesis by (rule round_trip_relative [OF assms])
next
  case True
  then obtain up where p: "p = SLASH # up" by (cases p) auto
  show ?thesis
    using round_trip_posix_absolute [of up cwd] round_trip_windows_absolute [of up cwd] assms
    unfolding p by (cases w) auto
qed

end
